theory Spec2Isabelle
  imports Complex_Main "HOL-Library.Sublist" "HOL-Library.AList"
begin

section \<open>JavaScript values\<close>

text \<open>
  A JavaScript string is a sequence of UTF-16 code units; it is modelled as the list of
  their numbers, so that no input string is left out. A string literal of the program is
  written \<open>js ''...''\<close>. Property names and endpoints, which are fixed identifiers of the
  program, are plain \<open>string\<close>s.

  A JavaScript number is modelled as a real number (exact arithmetic); where the code could
  produce a non-finite number by a division, the result is a \<open>real option\<close> and \<open>None\<close>
  stands for \<open>NaN\<close> and the infinities.
\<close>

type_synonym jstring = "nat list"

definition js :: "string \<Rightarrow> jstring" where
  "js s = map of_char s"

text \<open>\<open>Array.prototype.join\<close> on an array of strings.\<close>

fun join :: "jstring \<Rightarrow> jstring list \<Rightarrow> jstring" where
  "join sep [] = []"
| "join sep [x] = x"
| "join sep (x # y # ys) = x @ sep @ join sep (y # ys)"

text \<open>
  The division operator \<open>/\<close> of JavaScript never throws: a zero divisor yields \<open>NaN\<close> or
  an infinity, which is \<open>None\<close> here.
\<close>

definition js_div :: "real \<Rightarrow> real \<Rightarrow> real option" where
  "js_div a b = (if b = 0 then None else Some (a / b))"


text \<open>The values an object literal sent as a JSON body holds, and the body itself: its
  properties in the order they are written.\<close>

datatype json = JStr jstring | JNum real

type_synonym body = "(string \<times> json) list"

text \<open>
  The exceptions of the services: a plain \<open>Error\<close> with its message, and the
  \<open>ApiError\<close> of \<open>api.client.ts\<close> with its message and optional HTTP status.
\<close>

datatype js_error = Error jstring | ApiError jstring "nat option"

fun message :: "js_error \<Rightarrow> jstring" where
  "message (Error m) = m"
| "message (ApiError m st) = m"


section \<open>Generation service (\<open>GenerationService\<close>)\<close>

record GenerationRequest =
  prompt :: "jstring option"
  temperature :: "real option"
  max_tokens :: "real option"
  top_p :: "real option"
  model :: "jstring option"
  neural_weight :: "real option"
  bigram_weight :: "real option"
  trigram_weight :: "real option"
  tetragram_weight :: "real option"

record GenerationResponse =
  generated_text :: jstring
  valid_mask :: "bool list option"

text \<open>\<open>GenerationService.validateGenerationParams\<close>: the list of error messages.\<close>

definition validateGenerationParams :: "GenerationRequest \<Rightarrow> jstring list" where
  "validateGenerationParams params =
     (case temperature params of
        None \<Rightarrow> []
      | Some t \<Rightarrow> if t < 0 \<or> t > 2 then [js ''Temperature must be between 0 and 2''] else [])
     @ (case max_tokens params of
        None \<Rightarrow> []
      | Some m \<Rightarrow> if m < 1 \<or> m > 10000 then [js ''Max tokens must be between 1 and 10,000''] else [])
     @ (case top_p params of
        None \<Rightarrow> []
      | Some p \<Rightarrow> if p < 0 \<or> p > 1 then [js ''Top-p must be between 0 and 1''] else [])"

text \<open>The object literal that \<open>generateText\<close> posts: \<open>||\<close> on the prompt, \<open>??\<close> on the rest.\<close>

definition request_body :: "GenerationRequest \<Rightarrow> body" where
  "request_body params =
     [(''prompt'', JStr (case prompt params of None \<Rightarrow> [] | Some p \<Rightarrow> p)),
      (''temperature'', JNum (case temperature params of None \<Rightarrow> 0.7 | Some v \<Rightarrow> v)),
      (''max_tokens'', JNum (case max_tokens params of None \<Rightarrow> 100 | Some v \<Rightarrow> v)),
      (''top_p'', JNum (case top_p params of None \<Rightarrow> 0.9 | Some v \<Rightarrow> v)),
      (''model'', JStr (case model params of None \<Rightarrow> js ''default'' | Some v \<Rightarrow> v)),
      (''neural_weight'', JNum (case neural_weight params of None \<Rightarrow> 0.8 | Some v \<Rightarrow> v)),
      (''bigram_weight'', JNum (case bigram_weight params of None \<Rightarrow> 0.2 | Some v \<Rightarrow> v)),
      (''trigram_weight'', JNum (case trigram_weight params of None \<Rightarrow> 0.3 | Some v \<Rightarrow> v)),
      (''tetragram_weight'', JNum (case tetragram_weight params of None \<Rightarrow> 0.5 | Some v \<Rightarrow> v))]"

text \<open>
  \<open>GenerationService.generateText\<close>. The backend is not part of the function: \<open>reply\<close> is
  what \<open>apiClient.post\<close> yields if it is called (a response, or the exception it throws).
  The result is the list of requests issued (endpoint and body) and the value returned
  (\<open>Inr\<close>) or the exception thrown (\<open>Inl\<close>). The \<open>throw\<close> of the validation errors happens
  inside the \<open>try\<close>; the \<open>catch\<close> rethrows it unchanged, not being an \<open>ApiError\<close>.
\<close>

definition generateText ::
  "GenerationRequest \<Rightarrow> js_error + GenerationResponse
     \<Rightarrow> (string \<times> body) list \<times> (js_error + GenerationResponse)" where
  "generateText params reply =
     (let errors = validateGenerationParams params in
      if length errors > 0 then ([], Inl (Error (join (js '', '') errors)))
      else ([(''/api/generate'', request_body params)],
            (case reply of
               Inr response \<Rightarrow> Inr response
             | Inl (ApiError m st) \<Rightarrow> Inl (Error (js ''Generation failed: '' @ m))
             | Inl (Error m) \<Rightarrow> Inl (Error m))))"


text \<open>Requests with temperature 0, 3 and -1 and a reply, used as concrete inputs below.\<close>

definition zero_temperature_request :: GenerationRequest where
  "zero_temperature_request =
     \<lparr>prompt = Some (js ''TH''), temperature = Some 0, max_tokens = Some 10, top_p = None,
      model = None, neural_weight = Some 0, bigram_weight = Some 1, trigram_weight = Some 0,
      tetragram_weight = Some 0\<rparr>"

definition hot_request :: GenerationRequest where
  "hot_request = zero_temperature_request\<lparr>GenerationRequest.temperature := Some 3\<rparr>"

definition cold_request :: GenerationRequest where
  "cold_request = zero_temperature_request\<lparr>GenerationRequest.temperature := Some (- 1)\<rparr>"

definition sample_response :: GenerationResponse where
  "sample_response = \<lparr>generated_text = js ''THE CAT'', valid_mask = Some [True, True]\<rparr>"


section \<open>Whitespace and splitting\<close>

text \<open>
  The code units that \<open>\s\<close> of a regular expression and \<open>String.prototype.trim\<close>
  treat as white space (ECMAScript \<open>WhiteSpace\<close> and \<open>LineTerminator\<close>).
\<close>

definition is_whitespace :: "nat \<Rightarrow> bool" where
  "is_whitespace c \<longleftrightarrow>
     c \<in> set [9, 10, 11, 12, 13, 32, 160, 5760, 8232, 8233, 8239, 8287, 12288, 65279]
     \<or> (8192 \<le> c \<and> c \<le> 8202)"

definition trim :: "jstring \<Rightarrow> jstring" where
  "trim s = rev (dropWhile is_whitespace (rev (dropWhile is_whitespace s)))"

text \<open>
  \<open>s.split(/\s+/)\<close>: the pieces between maximal runs of white space; a run at either end
  leaves an empty piece there, and the empty string gives one empty piece.
\<close>

function split_ws :: "jstring \<Rightarrow> jstring list" where
  "split_ws [] = [[]]"
| "split_ws (c # cs) =
     (if is_whitespace c then [] # split_ws (dropWhile is_whitespace cs)
      else (case split_ws cs of
              [] \<Rightarrow> [[c]]
            | w # ws \<Rightarrow> (c # w) # ws))"
  by pat_completeness auto
termination
  by (relation "measure length") (auto simp: le_imp_less_Suc length_dropWhile_le)

text \<open>\<open>s.split(/\s+/).filter(w => w.length > 0)\<close>, as both stores and services use it.\<close>

definition nonempty_pieces :: "jstring \<Rightarrow> jstring list" where
  "nonempty_pieces s = filter (\<lambda>w. length w > 0) (split_ws s)"


section \<open>Generation store (\<open>useGenerationStore\<close>)\<close>

record GenerationParams =
  prompt :: jstring
  temperature :: real
  max_tokens :: real
  neural_weight :: real
  bigram_weight :: real
  trigram_weight :: real
  tetragram_weight :: real

record GenerationResult =
  gen_id :: jstring
  timestamp :: int
  params :: GenerationParams
  gen_text :: jstring
  validMask :: "bool list"
  validPercentage :: "real option"
  totalWords :: nat
  validWords :: nat
  duration :: int

datatype GenerationStatus = G_idle | generating | completed | G_error

record GenerationState =
  status :: GenerationStatus
  currentGeneration :: "GenerationResult option"
  history :: "GenerationResult list"
  error :: "jstring option"
  isStreaming :: bool
  streamedTokens :: jstring

definition MAX_HISTORY :: nat where
  "MAX_HISTORY = 50"

text \<open>
  What \<open>JSON.parse\<close> makes of the string kept in \<open>localStorage\<close> under \<open>HISTORY_KEY\<close>:
  it throws, or gives a value that is not an array, or gives an array.
\<close>

datatype saved_history = Unparsable | NotArray | HistoryArray "GenerationResult list"

text \<open>The initial state of the store.\<close>

definition initial_generation_state :: GenerationState where
  "initial_generation_state =
     \<lparr>status = G_idle, currentGeneration = None, history = [], error = None,
      isStreaming = False, streamedTokens = []\<rparr>"

text \<open>
  The object \<open>normalizedParams\<close> of \<open>generate\<close>: the parameters with the three Markov weights
  divided by their sum, or the fixed triple when the sum is not positive.
\<close>

definition normalizedParams :: "GenerationParams \<Rightarrow> GenerationParams" where
  "normalizedParams ps =
     (let markovTotal = GenerationParams.bigram_weight ps + GenerationParams.trigram_weight ps
                          + GenerationParams.tetragram_weight ps
      in ps\<lparr>GenerationParams.bigram_weight :=
               (if markovTotal > 0 then GenerationParams.bigram_weight ps / markovTotal else 0.33),
             GenerationParams.trigram_weight :=
               (if markovTotal > 0 then GenerationParams.trigram_weight ps / markovTotal else 0.33),
             GenerationParams.tetragram_weight :=
               (if markovTotal > 0 then GenerationParams.tetragram_weight ps / markovTotal else 0.34)\<rparr>)"

text \<open>
  A \<open>GenerationParams\<close> object passed where a \<open>GenerationRequest\<close> is expected: every field
  it has is defined, \<open>top_p\<close> and \<open>model\<close> are absent.
\<close>

definition as_request :: "GenerationParams \<Rightarrow> GenerationRequest" where
  "as_request ps =
     \<lparr>GenerationRequest.prompt = Some (GenerationParams.prompt ps),
      temperature = Some (GenerationParams.temperature ps),
      max_tokens = Some (GenerationParams.max_tokens ps),
      top_p = None,
      model = None,
      neural_weight = Some (GenerationParams.neural_weight ps),
      bigram_weight = Some (GenerationParams.bigram_weight ps),
      trigram_weight = Some (GenerationParams.trigram_weight ps),
      tetragram_weight = Some (GenerationParams.tetragram_weight ps)\<rparr>"

text \<open>The statistics block of \<open>generate\<close>: \<open>totalWords\<close> and \<open>validPercentage\<close>.\<close>

definition totalWords_of :: "GenerationResponse \<Rightarrow> nat" where
  "totalWords_of response =
     (let wordsList = nonempty_pieces (trim (generated_text response));
          vm = (case valid_mask response of None \<Rightarrow> [] | Some m \<Rightarrow> m)
      in if length vm > 0 then length vm else length wordsList)"

definition validPercentage_of :: "nat \<Rightarrow> nat \<Rightarrow> real option" where
  "validPercentage_of validCount totalCount =
     (if totalCount > 0
      then map_option (\<lambda>q. q * 100) (js_div (real validCount) (real totalCount))
      else Some 0)"

text \<open>
  The action \<open>generate\<close>. Its inputs besides the parameters are the identifier made by
  \<open>createGenerationId\<close>, the three readings of \<open>Date.now()\<close> and the reply of the API; the
  state is the store together with the entry of \<open>localStorage\<close> under \<open>HISTORY_KEY\<close>.
  Every exception of the \<open>try\<close> block is an \<open>Error\<close>, so the \<open>catch\<close> stores its message.
\<close>

definition generate ::
  "jstring \<Rightarrow> int \<Rightarrow> int \<Rightarrow> int \<Rightarrow> GenerationParams \<Rightarrow> js_error + GenerationResponse
     \<Rightarrow> GenerationState \<times> saved_history option \<Rightarrow> GenerationState \<times> saved_history option" where
  "generate generationId startTime now1 now2 ps reply w =
     (let st = (fst w)\<lparr>GenerationState.status := generating, error := None,
                       streamedTokens := [], currentGeneration := None\<rparr>
      in case snd (generateText (as_request (normalizedParams ps)) reply) of
           Inl e \<Rightarrow> (st\<lparr>GenerationState.status := G_error, error := Some (message e)\<rparr>, snd w)
         | Inr response \<Rightarrow>
             (let vm = (case valid_mask response of None \<Rightarrow> [] | Some m \<Rightarrow> m);
                  validCount = length (filter (\<lambda>v. v = True) vm);
                  totalCount = totalWords_of response;
                  result = \<lparr>gen_id = generationId, timestamp = now1, params = ps,
                            gen_text = generated_text response, validMask = vm,
                            validPercentage = validPercentage_of validCount totalCount,
                            totalWords = totalCount, validWords = validCount,
                            duration = now2 - startTime\<rparr>;
                  newHistory = take MAX_HISTORY (result # history st)
              in (st\<lparr>GenerationState.status := completed, currentGeneration := Some result,
                      history := newHistory, streamedTokens := generated_text response\<rparr>,
                  Some (HistoryArray newHistory))))"

text \<open>
  The block that loads the history when the module is initialised: it acts only on a
  saved string that parses to an array.
\<close>

definition restore_history :: "saved_history option \<Rightarrow> GenerationState \<Rightarrow> GenerationState" where
  "restore_history saved st =
     (case saved of
        Some (HistoryArray h) \<Rightarrow> st\<lparr>history := take MAX_HISTORY h\<rparr>
      | _ \<Rightarrow> st)"


section \<open>Generate page (\<open>handleGenerate\<close>)\<close>




definition sample_params :: GenerationParams where
  "sample_params =
     \<lparr>GenerationParams.prompt = js ''TH'', temperature = 1, max_tokens = 20,
      neural_weight = 0, bigram_weight = 1, trigram_weight = 1, tetragram_weight = 1\<rparr>"


section \<open>Training service (\<open>TrainingService.calculateStats\<close>)\<close>

text \<open>
  \<open>String.prototype.toUpperCase\<close> maps a string code point by code point. On the ASCII
  range it turns \<open>a\<close>..\<open>z\<close> into \<open>A\<close>..\<open>Z\<close> and keeps every other unit; above it the
  mapping is that of the Unicode tables, which are not part of the sources: \<open>special\<close>
  stands for it, giving the units that replace one unit.
\<close>

definition toUpperCase_unit :: "(nat \<Rightarrow> nat list) \<Rightarrow> nat \<Rightarrow> nat list" where
  "toUpperCase_unit special c =
     (if 97 \<le> c \<and> c \<le> 122 then [c - 32]
      else if c < 128 then [c]
      else special c)"

definition toUpperCase :: "(nat \<Rightarrow> nat list) \<Rightarrow> jstring \<Rightarrow> jstring" where
  "toUpperCase special s = concat (map (toUpperCase_unit special) s)"

text \<open>The character class \<open>[A-Z ]\<close>, and the alphabet as the list of its 27 symbols.\<close>

definition in_alphabet :: "nat \<Rightarrow> bool" where
  "in_alphabet c \<longleftrightarrow> (65 \<le> c \<and> c \<le> 90) \<or> c = 32"

definition alphabet :: "nat list" where
  "alphabet = [65 ..< 91] @ [32]"

text \<open>\<open>text.toUpperCase().replace(/[^A-Z ]/g, '')\<close>\<close>

definition cleanedText :: "(nat \<Rightarrow> nat list) \<Rightarrow> jstring \<Rightarrow> jstring" where
  "cleanedText special s = filter in_alphabet (toUpperCase special s)"

record TrainingStats =
  total_patterns :: nat
  unique_patterns :: nat
  memory_bytes :: nat

text \<open>
  \<open>calculateStats\<close>. The field \<open>memory_usage\<close> is the size in bytes of the cleaned text
  formatted in megabytes; the record keeps the size itself (one byte per unit, the
  cleaned text being ASCII).
\<close>

definition calculateStats :: "(nat \<Rightarrow> nat list) \<Rightarrow> jstring \<Rightarrow> TrainingStats" where
  "calculateStats special s =
     (let cleaned = cleanedText special s;
          patterns = nonempty_pieces cleaned
      in \<lparr>total_patterns = length patterns,
          unique_patterns = length (remdups patterns),
          memory_bytes = length cleaned\<rparr>)"

text \<open>A mapping for the units above ASCII that knows the sharp s (to \<open>SS\<close>) and the dotless i.\<close>

definition sample_special :: "nat \<Rightarrow> nat list" where
  "sample_special c = (if c = 223 then [83, 83] else if c = 305 then [73] else [c])"


section \<open>Polling manager (\<open>PollingManager\<close>)\<close>

text \<open>
  The manager holds the map \<open>intervals\<close> from job identifiers to interval handles (a
  JavaScript \<open>Map\<close>, which keeps insertion order) and the set \<open>active\<close>. The runtime's
  table of live intervals is part of the state: \<open>live\<close> lists every interval that
  \<open>setInterval\<close> created and \<open>clearInterval\<close> has not cleared, with the job identifier
  its callback closes over; \<open>fresh\<close> is the next handle. Handles are positive, hence truthy.
\<close>

record PollingState =
  intervals :: "(jstring \<times> nat) list"
  active :: "jstring list"
  live :: "(nat \<times> jstring) list"
  fresh :: nat

definition new_manager :: PollingState where
  "new_manager = \<lparr>intervals = [], active = [], live = [], fresh = 1\<rparr>"

definition stop :: "jstring \<Rightarrow> PollingState \<Rightarrow> PollingState" where
  "stop jobId s =
     (let s1 = (case map_of (intervals s) jobId of
                  None \<Rightarrow> s
                | Some interval \<Rightarrow>
                    if interval \<noteq> 0
                    then s\<lparr>live := AList.delete interval (live s),
                           intervals := AList.delete jobId (intervals s)\<rparr>
                    else s)
      in s1\<lparr>active := removeAll jobId (active s1)\<rparr>)"

definition start :: "jstring \<Rightarrow> PollingState \<Rightarrow> PollingState" where
  "start jobId s =
     (let s1 = stop jobId s;
          s2 = s1\<lparr>active := (if jobId \<in> set (active s1) then active s1
                                else active s1 @ [jobId])\<rparr>;
          interval = fresh s2;
          s3 = s2\<lparr>live := AList.update interval jobId (live s2), fresh := interval + 1\<rparr>
      in s3\<lparr>intervals := AList.update jobId interval (intervals s3)\<rparr>)"

text \<open>
  \<open>stopAll\<close> iterates over the keys of the map while \<open>stop\<close> deletes the key being
  visited; a \<open>Map\<close> iterator then goes on to the next entry, so every key is visited once.
\<close>

definition stopAll :: "PollingState \<Rightarrow> PollingState" where
  "stopAll s = fold stop (map fst (intervals s)) s"

definition isPolling :: "jstring \<Rightarrow> PollingState \<Rightarrow> bool" where
  "isPolling jobId s \<longleftrightarrow> jobId \<in> set (active s)"

definition getActiveJobs :: "PollingState \<Rightarrow> jstring list" where
  "getActiveJobs s = active s"

text \<open>
  One firing of the interval with handle \<open>h\<close>: a cleared interval does not fire; a live
  one stops itself when its job is no longer active, and calls the callback otherwise
  (the callback's own calls of the manager are operations of their own).
\<close>

definition tick :: "nat \<Rightarrow> PollingState \<Rightarrow> PollingState" where
  "tick h s =
     (case map_of (live s) h of
        None \<Rightarrow> s
      | Some jobId \<Rightarrow> if jobId \<notin> set (active s) then stop jobId s else s)"

datatype polling_op = Start jstring | Stop jstring | StopAll | Tick nat

fun apply_op :: "polling_op \<Rightarrow> PollingState \<Rightarrow> PollingState" where
  "apply_op (Start jobId) s = start jobId s"
| "apply_op (Stop jobId) s = stop jobId s"
| "apply_op StopAll s = stopAll s"
| "apply_op (Tick h) s = tick h s"

definition run_ops :: "polling_op list \<Rightarrow> PollingState \<Rightarrow> PollingState" where
  "run_ops ops s = fold apply_op ops s"

text \<open>Polling started for a job, then for another, then again for the first.\<close>

definition sample_ops :: "polling_op list" where
  "sample_ops = [Start (js ''a''), Start (js ''b''), Start (js ''a'')]"

text \<open>
  The invariant of the manager: the keys of \<open>intervals\<close> and the handles of \<open>live\<close> are
  distinct, a job maps to a handle exactly when that handle is live for the job, the
  active jobs are the keys of \<open>intervals\<close>, and every handle is positive and older than
  \<open>fresh\<close>.
\<close>

definition pm_inv :: "PollingState \<Rightarrow> bool" where
  "pm_inv s \<longleftrightarrow>
     distinct (map fst (intervals s)) \<and> distinct (map fst (live s)) \<and> distinct (active s)
     \<and> (\<forall>j h. map_of (intervals s) j = Some h \<longleftrightarrow> map_of (live s) h = Some j)
     \<and> set (active s) = fst ` set (intervals s)
     \<and> (\<forall>j h. map_of (intervals s) j = Some h \<longrightarrow> 0 < h \<and> h < fresh s)
     \<and> 0 < fresh s"

text \<open>The live intervals whose callback belongs to a job.\<close>

definition intervals_of :: "jstring \<Rightarrow> PollingState \<Rightarrow> nat list" where
  "intervals_of jobId s = map fst (filter (\<lambda>p. snd p = jobId) (live s))"


section \<open>Training store (\<open>useTrainingStore\<close> with \<open>startPolling\<close>)\<close>

text \<open>
  The store modelled here is the one that polls with its own \<open>startPolling\<close> and
  \<open>stopPolling\<close>; the variant of the store that polls through the polling manager is
  not covered.
\<close>

text \<open>
  The status of the interface \<open>TrainingProgress\<close>, which the progress query returns, with
  the string literal each value is; and the status of the store, which adds \<open>idle\<close>.
\<close>

datatype ProgressStatus = P_queued | P_running | P_success | P_error


datatype TrainingStatus = idle | queued | running | success | error


text \<open>
  The JSON object of a progress reply as the polling callback reads it: each field may
  be missing.
\<close>

record progress_data =
  progress :: "real option"
  message :: "jstring option"
  status :: "ProgressStatus option"


record TrainingState =
  jobId :: "jstring option"
  progress :: real
  message :: jstring
  status :: TrainingStatus

text \<open>
  The store together with the module variable \<open>pollTimer\<close> (\<open>True\<close> while it holds an
  interval) and the entry of \<open>localStorage\<close> under \<open>STORAGE_KEY\<close>.
\<close>

record TrainingWorld =
  store :: TrainingState
  pollTimer :: bool
  savedJobId :: "jstring option"

definition initial_training_world :: TrainingWorld where
  "initial_training_world =
     \<lparr>store = \<lparr>jobId = None, progress = 0, message = [], status = idle\<rparr>,
      pollTimer = False, savedJobId = None\<rparr>"













section \<open>N-gram model (\<open>probabilities\<close>)\<close>

text \<open>
  Modelled from the spec: the N-gram model's counts and \<open>probabilities(order, context)\<close>
  (section 4.1); the backend that implements them is not among the sources. A table maps
  the key (order, context, next symbol) of an \<open>NGramRecord\<close> to its count; a key with no
  record has count 0. The result lists the symbols of the alphabet with their
  probabilities.
\<close>

datatype core_error = InvalidArgument

type_synonym ngram_table = "(nat \<times> jstring \<times> nat) \<Rightarrow> nat option"

definition count :: "ngram_table \<Rightarrow> nat \<Rightarrow> jstring \<Rightarrow> nat \<Rightarrow> nat" where
  "count tbl order ctx s = (case tbl (order, ctx, s) of None \<Rightarrow> 0 | Some c \<Rightarrow> c)"

definition observations :: "ngram_table \<Rightarrow> nat \<Rightarrow> jstring \<Rightarrow> nat" where
  "observations tbl order ctx = sum_list (map (count tbl order ctx) alphabet)"

definition probabilities ::
  "ngram_table \<Rightarrow> nat \<Rightarrow> jstring \<Rightarrow> core_error + (nat \<times> real) list" where
  "probabilities tbl order ctx =
     (if order \<noteq> 2 \<and> order \<noteq> 3 \<and> order \<noteq> 4 then Inl InvalidArgument
      else if observations tbl order ctx = 0
      then Inr (map (\<lambda>s. (s, 1 / real (length alphabet))) alphabet)
      else Inr (map (\<lambda>s. (s, real (count tbl order ctx s)
                                / real (observations tbl order ctx))) alphabet))"

text \<open>The bigram counts of the text \<open>THE THE THE\<close>.\<close>

definition the_table :: ngram_table where
  "the_table =
     [(2, js ''T'', 72) \<mapsto> 3, (2, js ''H'', 69) \<mapsto> 3, (2, js ''E'', 32) \<mapsto> 2,
      (2, js '' '', 84) \<mapsto> 2]"


section \<open>Properties: generation service and store\<close>

lemma validate_nonempty_iff:
  "validateGenerationParams req \<noteq> [] \<longleftrightarrow>
     (\<exists>t. GenerationRequest.temperature req = Some t \<and> (t < 0 \<or> 2 < t))
   \<or> (\<exists>m. GenerationRequest.max_tokens req = Some m \<and> (m < 1 \<or> 10000 < m))
   \<or> (\<exists>p. top_p req = Some p \<and> (p < 0 \<or> 1 < p))"
  by (auto simp: validateGenerationParams_def split: option.splits)

lemma generateText_invalid:
  "validateGenerationParams req \<noteq> [] \<Longrightarrow>
     generateText req reply
       = ([], Inl (Error (join (js '', '') (validateGenerationParams req))))"
  by (simp add: generateText_def Let_def)

lemma generateText_valid:
  "validateGenerationParams req = [] \<Longrightarrow>
     generateText req reply
       = ([(''/api/generate'', request_body req)],
          (case reply of
             Inr response \<Rightarrow> Inr response
           | Inl (ApiError m st) \<Rightarrow> Inl (Error (js ''Generation failed: '' @ m))
           | Inl (Error m) \<Rightarrow> Inl (Error m)))"
  by (simp add: generateText_def Let_def)

lemma generateText_Inr:
  "snd (generateText req reply) = Inr r \<Longrightarrow> validateGenerationParams req = [] \<and> reply = Inr r"
  by (cases "validateGenerationParams req = []")
     (auto simp: generateText_invalid generateText_valid split: sum.splits js_error.splits)

text \<open>
  C6. \<open>generateText\<close> validates first: validation reports an error exactly when the
  temperature is outside 0..2, \<open>max_tokens\<close> outside 1..10000 or \<open>top_p\<close> outside 0..1
  (for the fields that are given). With errors it throws an \<open>Error\<close> of the joined
  messages and issues no request. Without errors it issues the one request and returns
  the response, or rethrows the failure of the API as an \<open>Error\<close>. A value is returned
  only when validation passed and the API replied with that very response.
\<close>

theorem generateText_result_or_exception:
  "(validateGenerationParams req \<noteq> [] \<longleftrightarrow>
       (\<exists>t. GenerationRequest.temperature req = Some t \<and> (t < 0 \<or> 2 < t))
     \<or> (\<exists>m. GenerationRequest.max_tokens req = Some m \<and> (m < 1 \<or> 10000 < m))
     \<or> (\<exists>p. top_p req = Some p \<and> (p < 0 \<or> 1 < p)))
   \<and> (validateGenerationParams req \<noteq> [] \<longrightarrow>
        generateText req reply
          = ([], Inl (Error (join (js '', '') (validateGenerationParams req)))))
   \<and> (validateGenerationParams req = [] \<longrightarrow>
        fst (generateText req reply) = [(''/api/generate'', request_body req)]
        \<and> (\<forall>response. reply = Inr response \<longrightarrow> snd (generateText req reply) = Inr response)
        \<and> (\<forall>m st. reply = Inl (ApiError m st) \<longrightarrow>
              snd (generateText req reply) = Inl (Error (js ''Generation failed: '' @ m)))
        \<and> (\<forall>m. reply = Inl (Error m) \<longrightarrow> snd (generateText req reply) = Inl (Error m)))
   \<and> (\<forall>r. snd (generateText req reply) = Inr r \<longrightarrow>
          validateGenerationParams req = [] \<and> reply = Inr r)"
proof (intro conjI)
  show "validateGenerationParams req \<noteq> [] \<longleftrightarrow>
       (\<exists>t. GenerationRequest.temperature req = Some t \<and> (t < 0 \<or> 2 < t))
     \<or> (\<exists>m. GenerationRequest.max_tokens req = Some m \<and> (m < 1 \<or> 10000 < m))
     \<or> (\<exists>p. top_p req = Some p \<and> (p < 0 \<or> 1 < p))"
    by (rule validate_nonempty_iff)
  show "validateGenerationParams req \<noteq> [] \<longrightarrow>
        generateText req reply
          = ([], Inl (Error (join (js '', '') (validateGenerationParams req))))"
    by (simp add: generateText_invalid)
  show "validateGenerationParams req = [] \<longrightarrow>
        fst (generateText req reply) = [(''/api/generate'', request_body req)]
        \<and> (\<forall>response. reply = Inr response \<longrightarrow> snd (generateText req reply) = Inr response)
        \<and> (\<forall>m st. reply = Inl (ApiError m st) \<longrightarrow>
              snd (generateText req reply) = Inl (Error (js ''Generation failed: '' @ m)))
        \<and> (\<forall>m. reply = Inl (Error m) \<longrightarrow> snd (generateText req reply) = Inl (Error m))"
    by (simp add: generateText_valid)
  show "\<forall>r. snd (generateText req reply) = Inr r \<longrightarrow>
          validateGenerationParams req = [] \<and> reply = Inr r"
    using generateText_Inr by blast
qed

lemma zero_temperature_valid: "validateGenerationParams zero_temperature_request = []"
  by (simp add: validateGenerationParams_def zero_temperature_request_def)

text \<open>
  C2 as stated fails at temperature 0: validation reports no error, and the request is
  posted and its reply returned.
\<close>

theorem temperature_zero_accepted:
  "GenerationRequest.temperature zero_temperature_request = Some 0
   \<and> validateGenerationParams zero_temperature_request = []
   \<and> generateText zero_temperature_request (Inr sample_response)
       = ([(''/api/generate'', request_body zero_temperature_request)], Inr sample_response)"
  by (simp add: generateText_valid zero_temperature_valid)
     (simp add: zero_temperature_request_def)

text \<open>
  C2, as amended. A request with a negative temperature is rejected before any request
  is issued: validation reports \<open>Temperature must be between 0 and 2\<close> and \<open>generateText\<close>
  throws an \<open>Error\<close> with the joined messages, having posted nothing. A temperature
  between 0 and 2, both included, passes the temperature check.
\<close>

theorem negative_temperature_rejected:
  "(GenerationRequest.temperature req = Some t \<and> t < 0 \<longrightarrow>
      js ''Temperature must be between 0 and 2'' \<in> set (validateGenerationParams req)
      \<and> generateText req reply
          = ([], Inl (Error (join (js '', '') (validateGenerationParams req)))))
   \<and> (GenerationRequest.temperature req = Some t \<and> 0 \<le> t \<and> t \<le> 2 \<longrightarrow>
      js ''Temperature must be between 0 and 2'' \<notin> set (validateGenerationParams req))"
proof (intro conjI impI)
  assume h: "GenerationRequest.temperature req = Some t \<and> t < 0"
  then show "js ''Temperature must be between 0 and 2'' \<in> set (validateGenerationParams req)"
    by (simp add: validateGenerationParams_def)
  then have "validateGenerationParams req \<noteq> []" by auto
  then show "generateText req reply
          = ([], Inl (Error (join (js '', '') (validateGenerationParams req))))"
    by (rule generateText_invalid)
next
  assume "GenerationRequest.temperature req = Some t \<and> 0 \<le> t \<and> t \<le> 2"
  then show "js ''Temperature must be between 0 and 2'' \<notin> set (validateGenerationParams req)"
    by (auto simp: validateGenerationParams_def js_def split: option.splits)
qed







lemma generate_Inl:
  "snd (generateText (as_request (normalizedParams ps)) reply) = Inl e \<Longrightarrow>
     GenerationState.status (fst (generate gid t0 t1 t2 ps reply w)) = G_error
     \<and> history (fst (generate gid t0 t1 t2 ps reply w)) = history (fst w)
     \<and> snd (generate gid t0 t1 t2 ps reply w) = snd w"
  by (simp add: generate_def)

lemma generate_Inr:
  "snd (generateText (as_request (normalizedParams ps)) reply) = Inr response \<Longrightarrow>
     \<exists>r. gen_id r = gid \<and> gen_text r = generated_text response \<and> params r = ps
       \<and> totalWords r = totalWords_of response
       \<and> validPercentage r = validPercentage_of (validWords r) (totalWords r)
       \<and> GenerationState.status (fst (generate gid t0 t1 t2 ps reply w)) = completed
       \<and> currentGeneration (fst (generate gid t0 t1 t2 ps reply w)) = Some r
       \<and> history (fst (generate gid t0 t1 t2 ps reply w)) = take MAX_HISTORY (r # history (fst w))
       \<and> snd (generate gid t0 t1 t2 ps reply w)
           = Some (HistoryArray (take MAX_HISTORY (r # history (fst w))))"
  by (simp add: generate_def Let_def)

lemma generate_completed:
  assumes "GenerationState.status (fst (generate gid t0 t1 t2 ps reply w)) = completed"
  shows "\<exists>response. snd (generateText (as_request (normalizedParams ps)) reply) = Inr response"
proof (cases "snd (generateText (as_request (normalizedParams ps)) reply)")
  case (Inl e)
  from generate_Inl[OF this, of gid t0 t1 t2 w] assms show ?thesis by simp
next
  case (Inr response)
  then show ?thesis by blast
qed





text \<open>
  C10. After a completed \<open>generate\<close> the history is the new result followed by the
  previous history, cut to 50 entries: the new result is first, there are at most 50
  entries, and the same list is persisted. Restoring a saved array keeps its first 50
  entries.
\<close>

theorem history_bounded:
  "(GenerationState.status (fst (generate gid t0 t1 t2 ps reply w)) = completed \<longrightarrow>
      (\<exists>r response. reply = Inr response
         \<and> gen_id r = gid \<and> gen_text r = generated_text response \<and> params r = ps
         \<and> currentGeneration (fst (generate gid t0 t1 t2 ps reply w)) = Some r
         \<and> history (fst (generate gid t0 t1 t2 ps reply w)) = take 50 (r # history (fst w))
         \<and> hd (history (fst (generate gid t0 t1 t2 ps reply w))) = r
         \<and> history (fst (generate gid t0 t1 t2 ps reply w)) \<noteq> []
         \<and> length (history (fst (generate gid t0 t1 t2 ps reply w))) \<le> 50
         \<and> snd (generate gid t0 t1 t2 ps reply w)
             = Some (HistoryArray (history (fst (generate gid t0 t1 t2 ps reply w))))))
   \<and> history (restore_history (Some (HistoryArray h)) st) = take 50 h
   \<and> length (history (restore_history (Some (HistoryArray h)) st)) \<le> 50"
proof (intro conjI impI)
  assume "GenerationState.status (fst (generate gid t0 t1 t2 ps reply w)) = completed"
  then obtain response
    where g: "snd (generateText (as_request (normalizedParams ps)) reply) = Inr response"
    using generate_completed by blast
  then have reply: "reply = Inr response" using generateText_Inr by blast
  from generate_Inr[OF g, of gid t0 t1 t2 w]
  obtain r where r: "gen_id r = gid" "gen_text r = generated_text response" "params r = ps"
      "currentGeneration (fst (generate gid t0 t1 t2 ps reply w)) = Some r"
      "history (fst (generate gid t0 t1 t2 ps reply w)) = take MAX_HISTORY (r # history (fst w))"
      "snd (generate gid t0 t1 t2 ps reply w)
           = Some (HistoryArray (take MAX_HISTORY (r # history (fst w))))"
    by blast
  have h: "history (fst (generate gid t0 t1 t2 ps reply w)) = take 50 (r # history (fst w))"
    using r(5) by (simp add: MAX_HISTORY_def)
  have "take 50 (r # history (fst w)) = r # take 49 (history (fst w))"
    by (simp add: take_Cons')
  with h have h': "history (fst (generate gid t0 t1 t2 ps reply w)) = r # take 49 (history (fst w))"
    by simp
  have "hd (history (fst (generate gid t0 t1 t2 ps reply w))) = r"
       "history (fst (generate gid t0 t1 t2 ps reply w)) \<noteq> []"
       "length (history (fst (generate gid t0 t1 t2 ps reply w))) \<le> 50"
    using h' by simp_all
  moreover have "snd (generate gid t0 t1 t2 ps reply w)
             = Some (HistoryArray (history (fst (generate gid t0 t1 t2 ps reply w))))"
    using r(5,6) by simp
  ultimately show "\<exists>r response. reply = Inr response
         \<and> gen_id r = gid \<and> gen_text r = generated_text response \<and> params r = ps
         \<and> currentGeneration (fst (generate gid t0 t1 t2 ps reply w)) = Some r
         \<and> history (fst (generate gid t0 t1 t2 ps reply w)) = take 50 (r # history (fst w))
         \<and> hd (history (fst (generate gid t0 t1 t2 ps reply w))) = r
         \<and> history (fst (generate gid t0 t1 t2 ps reply w)) \<noteq> []
         \<and> length (history (fst (generate gid t0 t1 t2 ps reply w))) \<le> 50
         \<and> snd (generate gid t0 t1 t2 ps reply w)
             = Some (HistoryArray (history (fst (generate gid t0 t1 t2 ps reply w))))"
    using reply r(1-4) h by blast
next
  show "history (restore_history (Some (HistoryArray h)) st) = take 50 h"
    by (simp add: restore_history_def MAX_HISTORY_def)
  show "length (history (restore_history (Some (HistoryArray h)) st)) \<le> 50"
    by (simp add: restore_history_def MAX_HISTORY_def)
qed







lemma hot_request_errors:
  "validateGenerationParams hot_request = [js ''Temperature must be between 0 and 2'']"
  by (simp add: validateGenerationParams_def hot_request_def zero_temperature_request_def)

lemma cold_request_errors:
  "validateGenerationParams cold_request = [js ''Temperature must be between 0 and 2'']"
  by (simp add: validateGenerationParams_def cold_request_def zero_temperature_request_def)

theorem generateText_result_or_exception_witness:
  "validateGenerationParams zero_temperature_request = []
   \<and> generateText zero_temperature_request (Inr sample_response)
       = ([(''/api/generate'', request_body zero_temperature_request)], Inr sample_response)
   \<and> validateGenerationParams hot_request \<noteq> []
   \<and> generateText hot_request (Inr sample_response)
       = ([], Inl (Error (js ''Temperature must be between 0 and 2'')))"
proof -
  note ok = generateText_result_or_exception[of zero_temperature_request "Inr sample_response"]
  note bad = generateText_result_or_exception[of hot_request "Inr sample_response"]
  have v: "validateGenerationParams zero_temperature_request = []"
    by (rule zero_temperature_valid)
  have a: "fst (generateText zero_temperature_request (Inr sample_response))
             = [(''/api/generate'', request_body zero_temperature_request)]"
    using ok v by blast
  have b: "snd (generateText zero_temperature_request (Inr sample_response)) = Inr sample_response"
    using ok v by blast
  have c: "generateText zero_temperature_request (Inr sample_response)
       = ([(''/api/generate'', request_body zero_temperature_request)], Inr sample_response)"
    using a b by (simp add: prod_eq_iff)
  have h: "validateGenerationParams hot_request \<noteq> []"
    by (simp add: hot_request_errors)
  have d: "generateText hot_request (Inr sample_response)
       = ([], Inl (Error (join (js '', '') (validateGenerationParams hot_request))))"
    using bad h by blast
  have e: "generateText hot_request (Inr sample_response)
       = ([], Inl (Error (js ''Temperature must be between 0 and 2'')))"
    using d by (simp add: hot_request_errors)
  from v c h e show ?thesis by (intro conjI)
qed

theorem negative_temperature_rejected_witness:
  "GenerationRequest.temperature cold_request = Some (- 1) \<and> (- 1 :: real) < 0
   \<and> js ''Temperature must be between 0 and 2'' \<in> set (validateGenerationParams cold_request)
   \<and> generateText cold_request (Inr sample_response)
       = ([], Inl (Error (js ''Temperature must be between 0 and 2'')))
   \<and> GenerationRequest.temperature zero_temperature_request = Some 0
   \<and> js ''Temperature must be between 0 and 2''
        \<notin> set (validateGenerationParams zero_temperature_request)"
proof -
  note neg = negative_temperature_rejected[of cold_request "- 1" "Inr sample_response"]
  note zero = negative_temperature_rejected[of zero_temperature_request 0 "Inr sample_response"]
  have t: "GenerationRequest.temperature cold_request = Some (- 1)"
    by (simp add: cold_request_def)
  have n: "(- 1 :: real) < 0" by simp
  have a: "js ''Temperature must be between 0 and 2'' \<in> set (validateGenerationParams cold_request)"
    using neg t n by blast
  have "generateText cold_request (Inr sample_response)
       = ([], Inl (Error (join (js '', '') (validateGenerationParams cold_request))))"
    using neg t n by blast
  then have b: "generateText cold_request (Inr sample_response)
       = ([], Inl (Error (js ''Temperature must be between 0 and 2'')))"
    by (simp add: cold_request_errors)
  have z: "GenerationRequest.temperature zero_temperature_request = Some 0"
    by (simp add: zero_temperature_request_def)
  have c: "js ''Temperature must be between 0 and 2''
        \<notin> set (validateGenerationParams zero_temperature_request)"
    using zero z by simp
  from t n a b z c show ?thesis by (intro conjI)
qed


lemma sample_params_valid:
  "validateGenerationParams (as_request (normalizedParams sample_params)) = []"
  by (simp add: validateGenerationParams_def as_request_def normalizedParams_def
        sample_params_def Let_def)

lemma sample_generate_completed:
  "GenerationState.status
     (fst (generate gid t0 t1 t2 sample_params (Inr response) w)) = completed"
proof -
  have "snd (generateText (as_request (normalizedParams sample_params)) (Inr response))
          = Inr response"
    by (simp add: generateText_valid[OF sample_params_valid])
  from generate_Inr[OF this, of gid t0 t1 t2 w] show ?thesis by blast
qed



theorem history_bounded_witness:
  "GenerationState.status
     (fst (generate (js ''gen-1'') 10 11 12 sample_params (Inr sample_response)
            (initial_generation_state, None))) = completed
   \<and> length (history
        (fst (generate (js ''gen-1'') 10 11 12 sample_params (Inr sample_response)
               (initial_generation_state, None)))) = 1
   \<and> gen_text (hd (history
        (fst (generate (js ''gen-1'') 10 11 12 sample_params (Inr sample_response)
               (initial_generation_state, None))))) = js ''THE CAT''"
proof -
  note hb = history_bounded[of "js ''gen-1''" 10 11 12 sample_params "Inr sample_response"
      "(initial_generation_state, None)"]
  have c: "GenerationState.status
     (fst (generate (js ''gen-1'') 10 11 12 sample_params (Inr sample_response)
            (initial_generation_state, None))) = completed"
    by (rule sample_generate_completed)
  with hb obtain r where r:
      "gen_text r = generated_text sample_response"
      "history (fst (generate (js ''gen-1'') 10 11 12 sample_params (Inr sample_response)
            (initial_generation_state, None))) = take 50 (r # history (fst (initial_generation_state, None :: saved_history option)))"
    by auto
  have h: "history (fst (generate (js ''gen-1'') 10 11 12 sample_params (Inr sample_response)
            (initial_generation_state, None))) = [r]"
    using r(2) by (simp add: initial_generation_state_def)
  have t: "gen_text r = js ''THE CAT''" using r(1) by (simp add: sample_response_def)
  from c h t show ?thesis by simp
qed

section \<open>Properties: text normalization\<close>

lemma toUpperCase_unit_alphabet: "in_alphabet c \<Longrightarrow> toUpperCase_unit special c = [c]"
  by (auto simp: in_alphabet_def toUpperCase_unit_def)

lemma subseq_filter_concat:
  assumes "\<And>c. P c \<Longrightarrow> f c = [c]"
  shows "subseq (filter P s) (filter P (concat (map f s)))"
proof (induction s)
  case Nil
  show ?case by simp
next
  case (Cons c s)
  show ?case
  proof (cases "P c")
    case True
    then have "f c = [c]" by (rule assms)
    with True Cons show ?thesis by simp
  next
    case False
    have "subseq (filter P s) (filter P (f c) @ filter P (concat (map f s)))"
      using Cons by (rule list_emb_append2)
    with False show ?thesis by simp
  qed
qed

lemma concat_map_id:
  assumes "\<forall>c\<in>set s. f c = [c]"
  shows "concat (map f s) = s"
  using assms by (induction s) simp_all

lemma in_alphabet_set: "in_alphabet c \<longleftrightarrow> c \<in> set alphabet"
proof -
  have "set alphabet = {65 ..< 91} \<union> {32}"
    unfolding alphabet_def by (simp only: set_append set_upt list.set)
  then show ?thesis by (auto simp: in_alphabet_def)
qed

lemma alphabet_size: "length alphabet = 27 \<and> distinct alphabet"
  by (simp add: alphabet_def)

text \<open>
  C7. The cleaned text of \<open>calculateStats\<close> consists of symbols of the alphabet only,
  which has 27 distinct symbols; the symbols of the input that are in the alphabet occur
  in the cleaned text in their original order (as a subsequence), and an input made of
  alphabet symbols only is returned unchanged. This holds whatever upper-casing does to
  the units above ASCII.
\<close>

theorem cleanedText_in_alphabet:
  "(\<forall>c\<in>set (cleanedText special s). in_alphabet c)
   \<and> set (cleanedText special s) \<subseteq> set alphabet
   \<and> length alphabet = 27 \<and> distinct alphabet
   \<and> subseq (filter in_alphabet s) (cleanedText special s)
   \<and> ((\<forall>c\<in>set s. in_alphabet c) \<longrightarrow> cleanedText special s = s)"
proof (intro conjI impI)
  show "\<forall>c\<in>set (cleanedText special s). in_alphabet c"
    by (simp add: cleanedText_def)
  then show "set (cleanedText special s) \<subseteq> set alphabet"
    by (auto simp: in_alphabet_set)
  show "length alphabet = 27" "distinct alphabet"
    by (simp_all add: alphabet_size)
  show "subseq (filter in_alphabet s) (cleanedText special s)"
    unfolding cleanedText_def toUpperCase_def
    by (rule subseq_filter_concat) (rule toUpperCase_unit_alphabet)
next
  assume a: "\<forall>c\<in>set s. in_alphabet c"
  then have "concat (map (toUpperCase_unit special) s) = s"
    by (intro concat_map_id) (simp add: toUpperCase_unit_alphabet)
  then show "cleanedText special s = s"
    using a by (simp add: cleanedText_def toUpperCase_def)
qed

lemma hello_cleaned:
  "cleanedText sample_special (js ''Hi, Bob!'' @ [223, 305]) = js ''HI BOBSSI''"
  by (simp add: cleanedText_def toUpperCase_def toUpperCase_unit_def sample_special_def
        in_alphabet_def js_def)

theorem cleanedText_in_alphabet_witness:
  "cleanedText sample_special (js ''Hi, Bob!'' @ [223, 305]) = js ''HI BOBSSI''
   \<and> list_all in_alphabet (js ''HI BOBSSI'')
   \<and> subseq (js ''H B'') (js ''HI BOBSSI'')
   \<and> list_all in_alphabet (js ''THE CAT'')
   \<and> cleanedText sample_special (js ''THE CAT'') = js ''THE CAT''"
proof -
  note t1 = cleanedText_in_alphabet[of sample_special "js ''Hi, Bob!'' @ [223, 305]"]
  note t2 = cleanedText_in_alphabet[of sample_special "js ''THE CAT''"]
  have a: "list_all in_alphabet (js ''HI BOBSSI'')"
    using t1[THEN conjunct1] by (simp only: hello_cleaned list_all_iff)
  have f: "filter in_alphabet (js ''Hi, Bob!'' @ [223, 305]) = js ''H B''"
    by (simp add: js_def in_alphabet_def)
  have b: "subseq (js ''H B'') (js ''HI BOBSSI'')"
    using t1[THEN conjunct2, THEN conjunct2, THEN conjunct2, THEN conjunct2, THEN conjunct1]
    by (simp only: hello_cleaned f)
  have c: "\<forall>c\<in>set (js ''THE CAT''). in_alphabet c"
    by (simp add: js_def in_alphabet_def)
  have d: "cleanedText sample_special (js ''THE CAT'') = js ''THE CAT''"
    using t2[THEN conjunct2, THEN conjunct2, THEN conjunct2, THEN conjunct2, THEN conjunct2] c
    by (rule mp)
  have c': "list_all in_alphabet (js ''THE CAT'')"
    using c by (simp only: list_all_iff)
  from hello_cleaned a b c' d show ?thesis by (intro conjI)
qed

section \<open>Properties: n-gram probabilities\<close>

lemma sum_list_divide:
  fixes c :: real
  shows "sum_list (map (\<lambda>s. f s / c) xs) = sum_list (map f xs) / c"
  by (induction xs) (simp_all add: add_divide_distrib)

lemma sum_list_real_count:
  "sum_list (map (\<lambda>s. real (f s)) xs) = real (sum_list (map f xs))"
  by (induction xs) simp_all

lemma sum_list_uniform:
  fixes c :: real
  shows "sum_list (map (\<lambda>s. c) xs) = real (length xs) * c"
  by (induction xs) (simp_all add: algebra_simps)

lemma alphabet_length: "length alphabet = 27"
  by (simp add: alphabet_def)

lemma probabilities_seen:
  assumes "order = 2 \<or> order = 3 \<or> order = 4" and "observations tbl order ctx \<noteq> 0"
  shows "probabilities tbl order ctx
           = Inr (map (\<lambda>s. (s, real (count tbl order ctx s)
                                  / real (observations tbl order ctx))) alphabet)"
  using assms by (auto simp: probabilities_def)

lemma probabilities_unseen:
  assumes "order = 2 \<or> order = 3 \<or> order = 4" and "observations tbl order ctx = 0"
  shows "probabilities tbl order ctx = Inr (map (\<lambda>s. (s, 1 / 27)) alphabet)"
  using assms by (auto simp: probabilities_def alphabet_length)

lemma seen_sum:
  assumes "observations tbl order ctx \<noteq> 0"
  shows "sum_list (map snd (map (\<lambda>s. (s, real (count tbl order ctx s)
                                  / real (observations tbl order ctx))) alphabet)) = 1"
proof -
  have "sum_list (map (\<lambda>s. real (count tbl order ctx s) / real (observations tbl order ctx))
                    alphabet)
          = real (sum_list (map (count tbl order ctx) alphabet))
              / real (observations tbl order ctx)"
    by (simp only: sum_list_divide sum_list_real_count)
  also have "\<dots> = 1" using assms by (simp add: observations_def)
  finally show ?thesis by (simp add: comp_def)
qed

lemma unseen_sum:
  "sum_list (map snd (map (\<lambda>s. (s, 1 / 27 :: real)) alphabet)) = 1"
  by (simp add: comp_def sum_list_uniform alphabet_length)

text \<open>
  C4. For an order among 2, 3 and 4 and any context, \<open>probabilities\<close> returns a
  distribution over the 27 symbols of the alphabet whose probabilities sum to 1: the
  count of the symbol divided by the observations of the context when there are some,
  and \<open>1 / 27\<close> for every symbol when there are none.
\<close>

theorem probabilities_normalized:
  assumes "order = 2 \<or> order = 3 \<or> order = 4"
  shows "\<exists>dist. probabilities tbl order ctx = Inr dist
           \<and> map fst dist = alphabet \<and> length dist = 27
           \<and> sum_list (map snd dist) = 1
           \<and> (observations tbl order ctx \<noteq> 0 \<longrightarrow>
                (\<forall>s\<in>set alphabet.
                   map_of dist s = Some (real (count tbl order ctx s)
                                          / real (observations tbl order ctx))))
           \<and> (observations tbl order ctx = 0 \<longrightarrow>
                (\<forall>s\<in>set alphabet. map_of dist s = Some (1 / 27)))"
proof (cases "observations tbl order ctx = 0")
  case True
  let ?d = "map (\<lambda>s. (s, 1 / 27 :: real)) alphabet"
  have p: "probabilities tbl order ctx = Inr ?d"
    using assms True by (rule probabilities_unseen)
  have f: "map fst ?d = alphabet" by (simp add: comp_def)
  have l: "length ?d = 27" by (simp add: alphabet_length)
  have su: "sum_list (map snd ?d) = 1" by (rule unseen_sum)
  have m: "\<forall>s\<in>set alphabet. map_of ?d s = Some (1 / 27)"
    by (simp add: map_of_map_restrict)
  show ?thesis
    by (rule exI[of _ ?d])
       (intro conjI impI, rule p, rule f, rule l, rule su, erule notE, rule True, rule m)
next
  case False
  let ?d = "map (\<lambda>s. (s, real (count tbl order ctx s)
                          / real (observations tbl order ctx))) alphabet"
  have p: "probabilities tbl order ctx = Inr ?d"
    using assms False by (rule probabilities_seen)
  have f: "map fst ?d = alphabet" by (simp add: comp_def)
  have l: "length ?d = 27" by (simp add: alphabet_length)
  have su: "sum_list (map snd ?d) = 1" using False by (rule seen_sum)
  have m: "\<forall>s\<in>set alphabet.
                   map_of ?d s = Some (real (count tbl order ctx s)
                                          / real (observations tbl order ctx))"
    by (simp add: map_of_map_restrict)
  show ?thesis
    by (rule exI[of _ ?d])
       (intro conjI impI, rule p, rule f, rule l, rule su, rule m, erule notE[OF False])
qed

lemma the_table_T: "observations the_table 2 (js ''T'') = 3"
  by (simp add: observations_def count_def the_table_def alphabet_def js_def)

lemma the_table_Q: "observations the_table 2 (js ''Q'') = 0"
  by (simp add: observations_def count_def the_table_def alphabet_def js_def)

lemma the_table_TH: "count the_table 2 (js ''T'') 72 = 3"
  by (simp add: count_def the_table_def js_def)

lemma H_in_alphabet: "72 \<in> set alphabet"
  by (simp add: alphabet_def)

theorem probabilities_normalized_witness:
  "(\<exists>dist. probabilities the_table 2 (js ''T'') = Inr dist
       \<and> sum_list (map snd dist) = 1 \<and> map_of dist 72 = Some 1)
   \<and> (\<exists>dist. probabilities the_table 2 (js ''Q'') = Inr dist
       \<and> sum_list (map snd dist) = 1 \<and> map_of dist 72 = Some (1 / 27))"
proof -
  have o: "(2::nat) = 2 \<or> (2::nat) = 3 \<or> (2::nat) = 4" by simp
  from probabilities_normalized[OF o, of the_table "js ''T''"]
  obtain d1 where d1: "probabilities the_table 2 (js ''T'') = Inr d1
           \<and> map fst d1 = alphabet \<and> length d1 = 27
           \<and> sum_list (map snd d1) = 1
           \<and> (observations the_table 2 (js ''T'') \<noteq> 0 \<longrightarrow>
                (\<forall>s\<in>set alphabet.
                   map_of d1 s = Some (real (count the_table 2 (js ''T'') s)
                                          / real (observations the_table 2 (js ''T'')))))
           \<and> (observations the_table 2 (js ''T'') = 0 \<longrightarrow>
                (\<forall>s\<in>set alphabet. map_of d1 s = Some (1 / 27)))" ..
  have "observations the_table 2 (js ''T'') \<noteq> 0" by (simp add: the_table_T)
  with d1 have "\<forall>s\<in>set alphabet.
                   map_of d1 s = Some (real (count the_table 2 (js ''T'') s)
                                          / real (observations the_table 2 (js ''T'')))"
    by (elim conjE) (rule mp)
  then have "map_of d1 72 = Some (real (count the_table 2 (js ''T'') 72)
                                          / real (observations the_table 2 (js ''T'')))"
    using H_in_alphabet by (rule bspec)
  then have h1: "map_of d1 72 = Some 1" by (simp add: the_table_T the_table_TH)
  have a: "\<exists>dist. probabilities the_table 2 (js ''T'') = Inr dist
       \<and> sum_list (map snd dist) = 1 \<and> map_of dist 72 = Some 1"
    by (rule exI[of _ d1]) (use d1 h1 in simp)
  from probabilities_normalized[OF o, of the_table "js ''Q''"]
  obtain d2 where d2: "probabilities the_table 2 (js ''Q'') = Inr d2
           \<and> map fst d2 = alphabet \<and> length d2 = 27
           \<and> sum_list (map snd d2) = 1
           \<and> (observations the_table 2 (js ''Q'') \<noteq> 0 \<longrightarrow>
                (\<forall>s\<in>set alphabet.
                   map_of d2 s = Some (real (count the_table 2 (js ''Q'') s)
                                          / real (observations the_table 2 (js ''Q'')))))
           \<and> (observations the_table 2 (js ''Q'') = 0 \<longrightarrow>
                (\<forall>s\<in>set alphabet. map_of d2 s = Some (1 / 27)))" ..
  from d2 the_table_Q have "\<forall>s\<in>set alphabet. map_of d2 s = Some (1 / 27)"
    by (elim conjE) (rule mp)
  then have h2: "map_of d2 72 = Some (1 / 27)"
    using H_in_alphabet by (rule bspec)
  have b: "\<exists>dist. probabilities the_table 2 (js ''Q'') = Inr dist
       \<and> sum_list (map snd dist) = 1 \<and> map_of dist 72 = Some (1 / 27)"
    by (rule exI[of _ d2]) (use d2 h2 in simp)
  from a b show ?thesis by (intro conjI)
qed

section \<open>Properties: training store\<close>











section \<open>Properties: polling manager\<close>

lemma stop_active: "active (stop j s) = removeAll j (active s)"
  by (simp add: stop_def Let_def split: option.splits)

lemma stop_fresh: "fresh (stop j s) = fresh s"
  by (simp add: stop_def Let_def split: option.splits)

lemma stop_intervals:
  assumes "pm_inv s"
  shows "intervals (stop j s) = AList.delete j (intervals s)"
proof (cases "map_of (intervals s) j")
  case None
  then have "j \<notin> fst ` set (intervals s)" by (simp add: map_of_eq_None_iff)
  then have "AList.delete j (intervals s) = intervals s" by (rule delete_id)
  with None show ?thesis by (simp add: stop_def)
next
  case (Some h)
  then have "h \<noteq> 0" using assms by (auto simp: pm_inv_def)
  with Some show ?thesis by (simp add: stop_def)
qed

lemma stop_live:
  assumes "pm_inv s"
  shows "live (stop j s)
           = (case map_of (intervals s) j of None \<Rightarrow> live s
              | Some h \<Rightarrow> AList.delete h (live s))"
proof (cases "map_of (intervals s) j")
  case None
  then show ?thesis by (simp add: stop_def)
next
  case (Some h)
  then have "h \<noteq> 0" using assms by (auto simp: pm_inv_def)
  with Some show ?thesis by (simp add: stop_def)
qed

lemma stop_live_map:
  assumes "pm_inv s"
  shows "map_of (live (stop j s)) h
           = (if map_of (live s) h = Some j then None else map_of (live s) h)"
proof (cases "map_of (intervals s) j")
  case None
  then have "map_of (live s) h \<noteq> Some j" using assms by (auto simp: pm_inv_def)
  with None show ?thesis by (simp add: stop_live[OF assms])
next
  case (Some h')
  have bij: "\<And>j h. map_of (intervals s) j = Some h \<longleftrightarrow> map_of (live s) h = Some j"
    using assms by (simp add: pm_inv_def)
  have l: "map_of (live s) h' = Some j" using Some bij by simp
  show ?thesis
  proof (cases "h = h'")
    case True
    with Some l show ?thesis by (simp add: stop_live[OF assms] delete_conv')
  next
    case False
    have "map_of (live s) h \<noteq> Some j"
    proof
      assume "map_of (live s) h = Some j"
      then have "map_of (intervals s) j = Some h" using bij by simp
      with Some False show False by simp
    qed
    with Some False show ?thesis by (simp add: stop_live[OF assms] delete_conv')
  qed
qed

lemma stop_intervals_map:
  assumes "pm_inv s"
  shows "map_of (intervals (stop j s)) j' = (if j' = j then None else map_of (intervals s) j')"
  by (simp add: stop_intervals[OF assms] delete_conv')

lemma distinct_live_stop:
  assumes "pm_inv s"
  shows "distinct (map fst (live (stop j s)))"
proof -
  have "distinct (map fst (live s))" using assms by (simp add: pm_inv_def)
  then show ?thesis
    by (simp add: stop_live[OF assms] distinct_delete split: option.splits)
qed

lemma inv_stop:
  assumes "pm_inv s"
  shows "pm_inv (stop j s)"
proof -
  have bij: "\<And>j h. map_of (intervals s) j = Some h \<longleftrightarrow> map_of (live s) h = Some j"
    and d: "distinct (map fst (intervals s))" "distinct (active s)"
    and act: "set (active s) = fst ` set (intervals s)"
    and bound: "\<And>j h. map_of (intervals s) j = Some h \<Longrightarrow> 0 < h \<and> h < fresh s"
    using assms by (simp_all add: pm_inv_def)
  have 1: "distinct (map fst (intervals (stop j s)))"
    using d(1) by (simp add: stop_intervals[OF assms] distinct_delete)
  have 2: "distinct (map fst (live (stop j s)))" by (rule distinct_live_stop[OF assms])
  have 3: "distinct (active (stop j s))" using d(2) by (simp add: stop_active distinct_removeAll)
  have 4: "\<forall>j' h. map_of (intervals (stop j s)) j' = Some h
             \<longleftrightarrow> map_of (live (stop j s)) h = Some j'"
    using bij by (auto simp: stop_intervals_map[OF assms] stop_live_map[OF assms])
  have "fst ` set (AList.delete j (intervals s)) = fst ` set (intervals s) - {j}"
    using delete_keys[of j "intervals s"]
    by (metis image_set set_removeAll)
  then have 5: "set (active (stop j s)) = fst ` set (intervals (stop j s))"
    using act by (simp add: stop_active stop_intervals[OF assms])
  have 6: "\<forall>j' h. map_of (intervals (stop j s)) j' = Some h \<longrightarrow> 0 < h \<and> h < fresh (stop j s)"
    using bound by (auto simp: stop_intervals_map[OF assms] stop_fresh split: if_splits)
  have 7: "0 < fresh (stop j s)" using assms by (simp add: pm_inv_def stop_fresh)
  from 1 2 3 4 5 6 7 show ?thesis unfolding pm_inv_def by (intro conjI)
qed

lemma stop_not_polling: "j \<notin> set (active (stop j s))"
  by (simp add: stop_active)

lemma start_fields:
  "active (start j s) = active (stop j s) @ [j]"
  "live (start j s) = AList.update (fresh s) j (live (stop j s))"
  "intervals (start j s) = AList.update j (fresh s) (intervals (stop j s))"
  "fresh (start j s) = fresh s + 1"
  by (simp_all add: start_def Let_def stop_not_polling stop_fresh)

lemma live_handles_bounded:
  assumes "pm_inv s" "map_of (live s) h = Some j"
  shows "0 < h \<and> h < fresh s"
  using assms by (auto simp: pm_inv_def)

lemma inv_start:
  assumes "pm_inv s"
  shows "pm_inv (start j s)"
proof -
  let ?s1 = "stop j s"
  have inv1: "pm_inv ?s1" by (rule inv_stop[OF assms])
  have bij: "\<And>j' h. map_of (intervals ?s1) j' = Some h \<longleftrightarrow> map_of (live ?s1) h = Some j'"
    and d: "distinct (map fst (intervals ?s1))" "distinct (map fst (live ?s1))"
           "distinct (active ?s1)"
    and act: "set (active ?s1) = fst ` set (intervals ?s1)"
    and bound: "\<And>j' h. map_of (intervals ?s1) j' = Some h \<Longrightarrow> 0 < h \<and> h < fresh s"
    using inv1 by (simp_all add: pm_inv_def stop_fresh)
  have nj: "map_of (intervals ?s1) j = None"
    by (simp add: stop_intervals_map[OF assms])
  have nl: "\<And>h. map_of (live ?s1) h \<noteq> Some j"
    using nj bij by (metis option.distinct(1))
  have nf: "map_of (live ?s1) (fresh s) = None"
  proof (cases "map_of (live ?s1) (fresh s)")
    case None
    then show ?thesis .
  next
    case (Some j')
    then have "map_of (intervals ?s1) j' = Some (fresh s)" using bij by simp
    from bound[OF this] show ?thesis by simp
  qed
  have 1: "distinct (map fst (intervals (start j s)))"
    using d(1) by (simp add: start_fields distinct_update)
  have 2: "distinct (map fst (live (start j s)))"
    using d(2) by (simp add: start_fields distinct_update)
  have 3: "distinct (active (start j s))"
    using d(3) by (simp add: start_fields stop_not_polling)
  have 4: "\<forall>j' h. map_of (intervals (start j s)) j' = Some h
             \<longleftrightarrow> map_of (live (start j s)) h = Some j'"
  proof (intro allI)
    fix j' h
    show "map_of (intervals (start j s)) j' = Some h
             \<longleftrightarrow> map_of (live (start j s)) h = Some j'"
    proof (cases "j' = j")
      case True
      show ?thesis
      proof (cases "h = fresh s")
        case True
        with \<open>j' = j\<close> show ?thesis by (simp add: start_fields update_conv')
      next
        case False
        with True nl[of h] show ?thesis by (simp add: start_fields update_conv')
      qed
    next
      case False
      show ?thesis
      proof (cases "h = fresh s")
        case True
        have "map_of (intervals ?s1) j' \<noteq> Some (fresh s)"
          using bound[of j' "fresh s"] by auto
        with True False show ?thesis by (simp add: start_fields update_conv')
      next
        case h: False
        with False bij[of j' h] show ?thesis by (simp add: start_fields update_conv')
      qed
    qed
  qed
  have 5: "set (active (start j s)) = fst ` set (intervals (start j s))"
    using act by (simp add: start_fields dom_update)
  have 6: "\<forall>j' h. map_of (intervals (start j s)) j' = Some h
             \<longrightarrow> 0 < h \<and> h < fresh (start j s)"
  proof (intro allI impI)
    fix j' h
    assume a: "map_of (intervals (start j s)) j' = Some h"
    show "0 < h \<and> h < fresh (start j s)"
    proof (cases "j' = j")
      case True
      with a have "h = fresh s" by (simp add: start_fields update_conv')
      moreover have "0 < fresh s" using assms by (simp add: pm_inv_def)
      ultimately show ?thesis by (simp add: start_fields)
    next
      case False
      with a have "map_of (intervals ?s1) j' = Some h" by (simp add: start_fields update_conv')
      from bound[OF this] show ?thesis by (simp add: start_fields)
    qed
  qed
  have 7: "0 < fresh (start j s)" by (simp add: start_fields)
  from 1 2 3 4 5 6 7 show ?thesis unfolding pm_inv_def by (intro conjI)
qed

lemma active_iff_interval:
  assumes "pm_inv s"
  shows "j \<in> set (active s) \<longleftrightarrow> map_of (intervals s) j \<noteq> None"
proof -
  have "set (active s) = fst ` set (intervals s)" using assms by (simp add: pm_inv_def)
  then show ?thesis by (simp add: map_of_eq_None_iff)
qed

lemma tick_id:
  assumes "pm_inv s"
  shows "tick h s = s"
proof (cases "map_of (live s) h")
  case None
  then show ?thesis by (simp add: tick_def)
next
  case (Some j)
  then have "map_of (intervals s) j = Some h" using assms by (simp add: pm_inv_def)
  then have "j \<in> set (active s)" using active_iff_interval[OF assms, of j] by simp
  with Some show ?thesis by (simp add: tick_def)
qed

lemma inv_stop_list: "pm_inv s \<Longrightarrow> pm_inv (fold stop jobs s)"
  by (induction jobs arbitrary: s) (simp_all add: inv_stop)

lemma fold_stop_intervals:
  "pm_inv s \<Longrightarrow>
     intervals (fold stop jobs s) = filter (\<lambda>p. fst p \<notin> set jobs) (intervals s)"
proof (induction jobs arbitrary: s)
  case Nil
  then show ?case by simp
next
  case (Cons j jobs)
  have "intervals (fold stop jobs (stop j s))
          = filter (\<lambda>p. fst p \<notin> set jobs) (intervals (stop j s))"
    by (rule Cons.IH[OF inv_stop[OF Cons.prems]])
  also have "intervals (stop j s) = filter (\<lambda>p. fst p \<noteq> j) (intervals s)"
    by (simp add: stop_intervals[OF Cons.prems] AList.delete_eq case_prod_unfold eq_commute)
  finally show ?case by (simp add: conj_commute)
qed

lemma inv_stopAll: "pm_inv s \<Longrightarrow> pm_inv (stopAll s)"
  by (simp add: stopAll_def inv_stop_list)

lemma stopAll_intervals: "pm_inv s \<Longrightarrow> intervals (stopAll s) = []"
  by (simp add: stopAll_def fold_stop_intervals)

lemma no_intervals_no_live:
  assumes "pm_inv s" "intervals s = []"
  shows "live s = []" "active s = []"
proof -
  have "\<And>h j. map_of (live s) h \<noteq> Some j"
    using assms by (auto simp: pm_inv_def)
  then have "map_of (live s) = Map.empty" by (metis not_Some_eq)
  then show "live s = []" by (simp only: map_of_eq_empty_iff)
  have "set (active s) = fst ` set (intervals s)" using assms(1) by (simp add: pm_inv_def)
  then show "active s = []" using assms(2) by simp
qed

lemma inv_new: "pm_inv new_manager"
  by (simp add: pm_inv_def new_manager_def)

lemma inv_apply: "pm_inv s \<Longrightarrow> pm_inv (apply_op x s)"
  by (cases x) (simp_all add: inv_start inv_stop inv_stopAll tick_id)

lemma inv_fold_ops: "pm_inv s \<Longrightarrow> pm_inv (fold apply_op xs s)"
  by (induction xs arbitrary: s) (simp_all add: inv_apply)

lemma inv_run: "pm_inv (run_ops xs new_manager)"
  by (simp add: run_ops_def inv_fold_ops inv_new)

lemma distinct_singleton:
  assumes "distinct xs" "set xs = {x}"
  shows "xs = [x]"
proof (cases xs)
  case Nil
  with assms(2) show ?thesis by simp
next
  case (Cons a ys)
  with assms(2) have a: "a = x" by auto
  have sub: "set ys \<subseteq> {x}" using assms(2) Cons by auto
  have nin: "x \<notin> set ys" using assms(1) Cons a by simp
  have "ys = []"
  proof (cases ys)
    case Nil
    then show ?thesis .
  next
    case (Cons b zs)
    then have "b \<in> set ys" by simp
    with sub have "b = x" by auto
    with \<open>b \<in> set ys\<close> nin show ?thesis by simp
  qed
  then show ?thesis using Cons a by simp
qed

lemma intervals_of_set:
  assumes "distinct (map fst (live s))"
  shows "set (intervals_of j s) = {h. map_of (live s) h = Some j}"
  using assms by (force simp: intervals_of_def)

lemma intervals_of_distinct:
  assumes "distinct (map fst (live s))"
  shows "distinct (intervals_of j s)"
  using assms by (simp add: intervals_of_def distinct_map_filter)

lemma intervals_of_char:
  assumes "pm_inv s"
  shows "intervals_of j s = (case map_of (intervals s) j of None \<Rightarrow> [] | Some h \<Rightarrow> [h])"
proof -
  have d: "distinct (map fst (live s))"
    and bij: "\<And>j h. map_of (intervals s) j = Some h \<longleftrightarrow> map_of (live s) h = Some j"
    using assms by (simp_all add: pm_inv_def)
  have st: "set (intervals_of j s) = {h. map_of (intervals s) j = Some h}"
    by (simp add: intervals_of_set[OF d] bij)
  show ?thesis
  proof (cases "map_of (intervals s) j")
    case None
    with st show ?thesis by simp
  next
    case (Some h)
    with st have "set (intervals_of j s) = {h}" by auto
    with intervals_of_distinct[OF d, of j] have "intervals_of j s = [h]"
      by (rule distinct_singleton)
    with Some show ?thesis by simp
  qed
qed

lemma start_interval:
  assumes "pm_inv s"
  shows "map_of (intervals (start j s)) j = Some (fresh s)"
  by (simp add: start_fields update_conv')

lemma start_clears_old:
  assumes "pm_inv s" "map_of (intervals s) j = Some h"
  shows "map_of (live (start j s)) h = None"
proof -
  have "h < fresh s" using assms by (auto simp: pm_inv_def)
  then have ne: "h \<noteq> fresh s" by simp
  have "map_of (live s) h = Some j" using assms by (simp add: pm_inv_def)
  then have "map_of (live (stop j s)) h = None" by (simp add: stop_live_map[OF assms(1)])
  with ne show ?thesis by (simp add: start_fields update_conv')
qed

lemma isPolling_other:
  assumes "other \<noteq> j"
  shows "isPolling j (start other s) = isPolling j s" "isPolling j (stop other s) = isPolling j s"
  using assms by (simp_all add: isPolling_def start_fields stop_active)

lemma isPolling_tick: "isPolling j (tick h s) = isPolling j s"
proof (cases "map_of (live s) h")
  case None
  then show ?thesis by (simp add: tick_def)
next
  case (Some j')
  show ?thesis
  proof (cases "j' \<in> set (active s)")
    case True
    with Some show ?thesis by (simp add: tick_def)
  next
    case False
    then have "removeAll j' (active s) = active s" by simp
    with Some False show ?thesis by (simp add: tick_def isPolling_def stop_active)
  qed
qed

lemma stopAll_clear:
  assumes "pm_inv s"
  shows "intervals (stopAll s) = []" "live (stopAll s) = []" "active (stopAll s) = []"
proof -
  show i: "intervals (stopAll s) = []" by (rule stopAll_intervals[OF assms])
  show "live (stopAll s) = []" by (rule no_intervals_no_live(1)[OF inv_stopAll[OF assms] i])
  show "active (stopAll s) = []" by (rule no_intervals_no_live(2)[OF inv_stopAll[OF assms] i])
qed

lemma polling_at_most_one:
  assumes "pm_inv s"
  shows "length (intervals_of j s) \<le> 1"
  by (simp add: intervals_of_char[OF assms] split: option.splits)

lemma polling_iff_interval:
  assumes "pm_inv s"
  shows "isPolling j s \<longleftrightarrow> intervals_of j s \<noteq> []"
    and "isPolling j s \<longleftrightarrow> map_of (intervals s) j \<noteq> None"
  using active_iff_interval[OF assms, of j]
  by (simp_all add: isPolling_def intervals_of_char[OF assms] split: option.splits)

lemma polling_after_start:
  assumes "pm_inv s"
  shows "isPolling j (start j s)" "intervals_of j (start j s) = [fresh s]"
    "map_of (intervals (start j s)) j = Some (fresh s)"
proof -
  show "isPolling j (start j s)" by (simp add: isPolling_def start_fields)
  show m: "map_of (intervals (start j s)) j = Some (fresh s)" by (rule start_interval[OF assms])
  show "intervals_of j (start j s) = [fresh s]"
    by (simp add: intervals_of_char[OF inv_start[OF assms]] m)
qed

lemma polling_after_stop:
  assumes "pm_inv s"
  shows "\<not> isPolling j (stop j s)" "intervals_of j (stop j s) = []"
    "map_of (intervals (stop j s)) j = None"
proof -
  show "\<not> isPolling j (stop j s)" by (simp add: isPolling_def stop_not_polling)
  show m: "map_of (intervals (stop j s)) j = None" by (simp add: stop_intervals_map[OF assms])
  show "intervals_of j (stop j s) = []"
    by (simp add: intervals_of_char[OF inv_stop[OF assms]] m)
qed

lemma polling_after_stopAll:
  assumes "pm_inv s"
  shows "\<not> isPolling j (stopAll s)" "intervals_of j (stopAll s) = []"
  by (simp_all add: isPolling_def intervals_of_def stopAll_clear[OF assms])

text \<open>
  C8. In every state the manager reaches from its initial state by calls of \<open>start\<close>,
  \<open>stop\<close>, \<open>stopAll\<close> and firings of intervals, a job has at most one live interval, and
  \<open>isPolling\<close> holds for it exactly when it has one (exactly when \<open>intervals\<close> has an
  entry for it). After \<open>start\<close> the job is polling with the new interval as its only
  live one, the interval it had before being cleared; after \<open>stop\<close> or \<open>stopAll\<close> it
  is not polling and has no interval, live or registered. Calls for other jobs and
  firings of intervals do not change whether it is polling, and it is not polling
  initially.
\<close>

theorem polling_single_interval:
  "(let s = run_ops ops new_manager
    in length (intervals_of job s) \<le> 1
     \<and> (isPolling job s \<longleftrightarrow> intervals_of job s \<noteq> [])
     \<and> (isPolling job s \<longleftrightarrow> map_of (intervals s) job \<noteq> None)
     \<and> isPolling job (start job s)
     \<and> intervals_of job (start job s) = [fresh s]
     \<and> map_of (intervals (start job s)) job = Some (fresh s)
     \<and> (\<forall>h. map_of (intervals s) job = Some h \<longrightarrow> map_of (live (start job s)) h = None)
     \<and> \<not> isPolling job (stop job s)
     \<and> intervals_of job (stop job s) = []
     \<and> map_of (intervals (stop job s)) job = None
     \<and> \<not> isPolling job (stopAll s)
     \<and> intervals_of job (stopAll s) = []
     \<and> intervals (stopAll s) = [] \<and> live (stopAll s) = []
     \<and> (\<forall>other. other \<noteq> job \<longrightarrow>
           isPolling job (start other s) = isPolling job s
           \<and> isPolling job (stop other s) = isPolling job s)
     \<and> (\<forall>h. isPolling job (tick h s) = isPolling job s))
   \<and> \<not> isPolling job new_manager"
proof -
  define s where "s = run_ops ops new_manager"
  have inv: "pm_inv s" unfolding s_def by (rule inv_run)
  have a: "length (intervals_of job s) \<le> 1" by (rule polling_at_most_one[OF inv])
  have b: "isPolling job s \<longleftrightarrow> intervals_of job s \<noteq> []"
    by (rule polling_iff_interval(1)[OF inv])
  have c: "isPolling job s \<longleftrightarrow> map_of (intervals s) job \<noteq> None"
    by (rule polling_iff_interval(2)[OF inv])
  note d = polling_after_start[OF inv, of job]
  have e: "\<forall>h. map_of (intervals s) job = Some h \<longrightarrow> map_of (live (start job s)) h = None"
    using start_clears_old[OF inv] by blast
  note f = polling_after_stop[OF inv, of job]
  note g = polling_after_stopAll[OF inv, of job]
  note h = stopAll_clear(1,2)[OF inv]
  have i: "\<forall>other. other \<noteq> job \<longrightarrow>
           isPolling job (start other s) = isPolling job s
           \<and> isPolling job (stop other s) = isPolling job s"
    using isPolling_other by blast
  have k: "\<forall>h. isPolling job (tick h s) = isPolling job s"
    by (simp add: isPolling_tick)
  have n: "\<not> isPolling job new_manager" by (simp add: isPolling_def new_manager_def)
  show ?thesis
    unfolding Let_def s_def[symmetric]
    by (intro conjI, rule a, rule b, rule c, rule d(1), rule d(2), rule d(3), rule e,
        rule f(1), rule f(2), rule f(3), rule g(1), rule g(2), rule h(1), rule h(2),
        rule i, rule k, rule n)
qed

lemma sample_run:
  "run_ops sample_ops new_manager
     = \<lparr>intervals = [(js ''b'', 2), (js ''a'', 3)], active = [js ''b'', js ''a''],
        live = [(2, js ''b''), (3, js ''a'')], fresh = 4\<rparr>"
  by (simp add: run_ops_def sample_ops_def new_manager_def start_def stop_def Let_def js_def)

theorem polling_single_interval_witness:
  "map_of (intervals (run_ops sample_ops new_manager)) (js ''a'') = Some 3
   \<and> map_of (live (start (js ''a'') (run_ops sample_ops new_manager))) 3 = None
   \<and> intervals_of (js ''a'') (start (js ''a'') (run_ops sample_ops new_manager)) = [4]
   \<and> length (intervals_of (js ''a'') (run_ops sample_ops new_manager)) \<le> 1
   \<and> js ''b'' \<noteq> js ''a''
   \<and> isPolling (js ''a'') (stop (js ''b'') (run_ops sample_ops new_manager))
   \<and> \<not> isPolling (js ''a'') (stop (js ''a'') (run_ops sample_ops new_manager))"
proof -
  let ?s = "run_ops sample_ops new_manager"
  note t = polling_single_interval[of sample_ops "js ''a''", unfolded Let_def, THEN conjunct1]
  have m: "map_of (intervals ?s) (js ''a'') = Some 3"
    by (simp add: sample_run js_def)
  have f: "fresh ?s = 4" by (simp add: sample_run)
  have p: "isPolling (js ''a'') ?s" by (simp add: sample_run isPolling_def)
  have ne: "js ''b'' \<noteq> js ''a''" by (simp add: js_def)
  note t1 = t[THEN conjunct1]
  note r1 = t[THEN conjunct2]
  note r2 = r1[THEN conjunct2]
  note r3 = r2[THEN conjunct2]
  note r4 = r3[THEN conjunct2]
  note t5 = r4[THEN conjunct1]
  note r5 = r4[THEN conjunct2]
  note r6 = r5[THEN conjunct2]
  note t7 = r6[THEN conjunct1]
  note r7 = r6[THEN conjunct2]
  note t8 = r7[THEN conjunct1]
  note r8 = r7[THEN conjunct2]
  note r9 = r8[THEN conjunct2]
  note r10 = r9[THEN conjunct2]
  note r11 = r10[THEN conjunct2]
  note r12 = r11[THEN conjunct2]
  note r13 = r12[THEN conjunct2]
  note r14 = r13[THEN conjunct2]
  note t15 = r14[THEN conjunct1]
  have a: "map_of (live (start (js ''a'') ?s)) 3 = None"
    using t7[THEN spec, of 3] m by (rule mp)
  have b: "intervals_of (js ''a'') (start (js ''a'') ?s) = [4]"
    using t5 by (simp only: f)
  have "isPolling (js ''a'') (start (js ''b'') ?s) = isPolling (js ''a'') ?s
           \<and> isPolling (js ''a'') (stop (js ''b'') ?s) = isPolling (js ''a'') ?s"
    using t15[THEN spec, of "js ''b''"] ne by (rule mp)
  then have c: "isPolling (js ''a'') (stop (js ''b'') ?s)" using p by simp
  from m a b t1 ne c t8 show ?thesis by (intro conjI)
qed

end
